theory Spec2Isabelle
  imports Main "HOL-Library.AList"
begin

section \<open>Text\<close>

text \<open>
  The server decodes what it receives as UTF-8 and works on Python \<open>str\<close> values. A
  text is modelled here as a HOL \<open>string\<close> holding its UTF-8 bytes, so that the length of a
  string is the size of its encoding (what the buffer cap measures) and splitting at the
  ASCII characters line feed and space is exact. \<open>str.split()\<close>, \<open>str.strip()\<close>,
  \<open>str.upper()\<close> and \<open>int()\<close> are modelled on the ASCII repertoire of the protocol: the
  ten ASCII characters Python counts as white space, the letters \<open>a\<close> to \<open>z\<close>, the digits
  \<open>0\<close> to \<open>9\<close>; a byte outside ASCII is an ordinary character without case.
\<close>

definition isspace :: "char \<Rightarrow> bool" where
  "isspace c = (c \<in> set [CHR 0x09, CHR 0x0A, CHR 0x0B, CHR 0x0C, CHR 0x0D,
                           CHR 0x1C, CHR 0x1D, CHR 0x1E, CHR 0x1F, CHR 0x20])"

definition upper_char :: "char \<Rightarrow> char" where
  "upper_char c =
     (case map_of (zip ''abcdefghijklmnopqrstuvwxyz'' ''ABCDEFGHIJKLMNOPQRSTUVWXYZ'') c of
        Some u \<Rightarrow> u
      | None \<Rightarrow> c)"

text \<open>\<open>s.upper()\<close>\<close>

definition upper :: "string \<Rightarrow> string" where
  "upper s = map upper_char s"

text \<open>\<open>s.strip()\<close>: leading and trailing white space removed.\<close>

definition strip :: "string \<Rightarrow> string" where
  "strip s = rev (dropWhile isspace (rev (dropWhile isspace s)))"

text \<open>\<open>s.rstrip(chars)\<close>: the trailing characters that are in \<open>chars\<close> removed.\<close>

definition rstrip :: "string \<Rightarrow> string \<Rightarrow> string" where
  "rstrip chars s = rev (dropWhile (\<lambda>c. c \<in> set chars) (rev s))"

text \<open>\<open>s.split()\<close>: the maximal runs of characters that are not white space.\<close>

function split_ws :: "string \<Rightarrow> string list" where
  "split_ws s =
     (case dropWhile isspace s of
        [] \<Rightarrow> []
      | c # cs \<Rightarrow> takeWhile (\<lambda>x. \<not> isspace x) (c # cs)
                 # split_ws (dropWhile (\<lambda>x. \<not> isspace x) (c # cs)))"
  by pat_completeness auto
termination
proof (relation "measure length")
  fix s :: string and c cs
  assume eq: "dropWhile isspace s = c # cs"
  have "\<not> isspace c"
    using eq hd_dropWhile [of isspace s] by auto
  then have "dropWhile (\<lambda>x. \<not> isspace x) (c # cs) = dropWhile (\<lambda>x. \<not> isspace x) cs"
    by simp
  moreover have "length (dropWhile (\<lambda>x. \<not> isspace x) cs) \<le> length cs"
    by (rule length_dropWhile_le)
  moreover have "length (c # cs) \<le> length s"
    using length_dropWhile_le [of isspace s] eq by simp
  ultimately show "(dropWhile (\<lambda>x. \<not> isspace x) (c # cs), s) \<in> measure length"
    by simp
qed simp

declare split_ws.simps [simp del]

text \<open>\<open>s.split(sep, 1)\<close> for a separator of one character: one or two parts.\<close>

definition split1 :: "char \<Rightarrow> string \<Rightarrow> string list" where
  "split1 sep s =
     (case dropWhile (\<lambda>c. c \<noteq> sep) s of
        [] \<Rightarrow> [s]
      | _ # after \<Rightarrow> [takeWhile (\<lambda>c. c \<noteq> sep) s, after])"

text \<open>\<open>sep.join(xs)\<close>\<close>

fun join :: "string \<Rightarrow> string list \<Rightarrow> string" where
  "join sep [] = []"
| "join sep [x] = x"
| "join sep (x # y # ys) = x @ sep @ join sep (y # ys)"

text \<open>\<open>str(n)\<close> for an integer: decimal digits, a minus sign when negative.\<close>

fun str_nat :: "nat \<Rightarrow> string" where
  "str_nat n =
     (if n < 10 then [''0123456789'' ! n]
      else str_nat (n div 10) @ [''0123456789'' ! (n mod 10)])"

declare str_nat.simps [simp del]

definition str_int :: "int \<Rightarrow> string" where
  "str_int i = (if i < 0 then CHR ''-'' # str_nat (nat (- i)) else str_nat (nat i))"

text \<open>
  \<open>int(s)\<close> on a token without white space: an optional sign, then decimal digits that
  may be separated by single underscores. \<open>None\<close> is \<open>ValueError\<close>, which CPython also
  raises for more than 4300 digits (its default limit for the conversion).
\<close>

definition isdigit :: "char \<Rightarrow> bool" where
  "isdigit c = (c \<in> set ''0123456789'')"

definition digit_val :: "char \<Rightarrow> nat" where
  "digit_val c = of_char c - 48"

fun digits_ok :: "string \<Rightarrow> bool" where
  "digits_ok [] = False"
| "digits_ok [c] = isdigit c"
| "digits_ok (c # d # cs) =
     (isdigit c \<and> (if d = CHR ''_'' then digits_ok cs else digits_ok (d # cs)))"

definition int_max_str_digits :: nat where
  "int_max_str_digits = 4300"

definition py_int :: "string \<Rightarrow> int option" where
  "py_int s =
     (let (neg, body) =
            (case s of
               [] \<Rightarrow> (False, s)
             | c # r \<Rightarrow> if c = CHR ''-'' then (True, r)
                        else if c = CHR ''+'' then (False, r)
                        else (False, s));
          ds = filter isdigit body;
          v = int (foldl (\<lambda>a c. 10 * a + digit_val c) 0 ds)
      in if digits_ok body \<and> length ds \<le> int_max_str_digits
         then Some (if neg then - v else v)
         else None)"

text \<open>\<open>d.get(k, default)\<close> on a dictionary kept as an association list.\<close>

definition dict_get :: "('k \<times> 'v) list \<Rightarrow> 'k \<Rightarrow> 'v \<Rightarrow> 'v" where
  "dict_get d k dflt = (case map_of d k of Some v \<Rightarrow> v | None \<Rightarrow> dflt)"

text \<open>How an f-string renders an attribute that may be \<open>None\<close>.\<close>

definition fmt_opt :: "string option \<Rightarrow> string" where
  "fmt_opt x = (case x of None \<Rightarrow> ''None'' | Some s \<Rightarrow> s)"

section \<open>The data of protocol.py\<close>

text \<open>
  A dictionary is an association list with distinct keys, in insertion order, as a Python
  \<open>dict\<close> is: \<open>d[k] = v\<close> is \<open>AList.update\<close>, \<open>del d[k]\<close> is \<open>AList.delete\<close>,
  \<open>d.get(k)\<close> is \<open>map_of\<close>. A record of \<open>USERS\<close> is itself a dictionary, with the keys
  \<open>pw_hash\<close> and \<open>role\<close>.
\<close>

type_synonym user_record = "(string \<times> string) list"

record Post =
  post_id :: int
  author :: "string option"
  timestamp :: string
  message :: string

text \<open>The module's globals \<open>USERS\<close>, \<open>posts\<close> and \<open>next_post_id\<close>.\<close>

record store =
  USERS :: "(string \<times> user_record) list"
  posts :: "(int \<times> Post) list"
  next_post_id :: int

text \<open>
  \<open>ClientState\<close> of server.py, without its socket and address: the socket is the key under
  which the state is kept, the address is only printed.
\<close>

record ClientState =
  buffer :: string
  username :: "string option"
  role :: "string option"
  authenticated :: bool

definition new_client :: ClientState where
  "new_client = \<lparr>buffer = [], username = None, role = None, authenticated = False\<rparr>"

text \<open>
  The Argon2 hasher \<open>ph\<close> is outside the program: \<open>ph_hash\<close> is \<open>ph.hash\<close>, and
  \<open>ph_verify h p\<close> is true when \<open>ph.verify(h, p)\<close> returns and false when it raises
  \<open>VerifyMismatchError\<close> (the one exception the code catches).
\<close>

record PasswordHasher =
  ph_hash :: "string \<Rightarrow> string"
  ph_verify :: "string \<Rightarrow> string \<Rightarrow> bool"

text \<open>The reading of \<open>time.localtime()\<close> and its rendering by
  \<open>time.strftime("%Y-%m-%dT%H:%M:%S", ...)\<close>.\<close>

record struct_time =
  tm_year :: nat
  tm_mon :: nat
  tm_mday :: nat
  tm_hour :: nat
  tm_min :: nat
  tm_sec :: nat

definition pad2 :: "nat \<Rightarrow> string" where
  "pad2 n = (if n < 10 then CHR ''0'' # str_nat n else str_nat n)"

definition strftime :: "struct_time \<Rightarrow> string" where
  "strftime t =
     str_nat (tm_year t) @ ''-'' @ pad2 (tm_mon t) @ ''-'' @ pad2 (tm_mday t) @ ''T''
       @ pad2 (tm_hour t) @ '':'' @ pad2 (tm_min t) @ '':'' @ pad2 (tm_sec t)"

definition SEEDED_PLAINTEXT_USERS :: "(string \<times> (string \<times> string) list) list" where
  "SEEDED_PLAINTEXT_USERS =
     [(''oliver'', [(''password'', ''pw1''), (''role'', ''user'')]),
      (''sam'', [(''password'', ''pw2''), (''role'', ''user'')]),
      (''admin'', [(''password'', ''adminpw''), (''role'', ''admin'')])]"

definition hash_seeded_users :: "PasswordHasher \<Rightarrow> (string \<times> user_record) list" where
  "hash_seeded_users ph =
     map (\<lambda>(username, rec).
            (username, [(''pw_hash'', ph_hash ph (dict_get rec ''password'' [])),
                        (''role'', dict_get rec ''role'' [])]))
         SEEDED_PLAINTEXT_USERS"

text \<open>The globals when the module has been loaded.\<close>

definition initial_store :: "PasswordHasher \<Rightarrow> store" where
  "initial_store ph = \<lparr>USERS = hash_seeded_users ph, posts = [], next_post_id = 1\<rparr>"


definition verify_password :: "PasswordHasher \<Rightarrow> user_record \<Rightarrow> string \<Rightarrow> bool" where
  "verify_password ph rec password =
     (case map_of rec ''pw_hash'' of
        None \<Rightarrow> False
      | Some stored_hash \<Rightarrow>
          if stored_hash = [] then False else ph_verify ph stored_hash password)"

section \<open>The command handlers\<close>

text \<open>
  A handler reads and changes the client's state and the globals and returns the response;
  here it takes both and returns them with the response. \<open>handle_login\<close> is the one that
  uses the hasher and \<open>handle_post\<close> the one that reads the clock.
\<close>

type_synonym handler =
  "PasswordHasher \<Rightarrow> struct_time \<Rightarrow> store \<Rightarrow> ClientState \<Rightarrow> string
     \<Rightarrow> string \<times> ClientState \<times> store"

definition require_auth :: "ClientState \<Rightarrow> string option" where
  "require_auth client =
     (if \<not> authenticated client then Some ''ERR Not logged in\<newline>'' else None)"

definition help_body :: "string list" where
  "help_body =
     [''LOGIN <username> <password>'',
      ''POST <message...>'',
      ''LIST'',
      ''GET <id>'',
      ''DEL <id>'',
      ''WHOAMI'',
      ''HELP [command]'',
      ''QUIT'',
      ''EXAMPLES:'',
      ''  LOGIN oliver pw1'',
      ''  POST hello world'',
      ''  LIST'',
      ''  GET 1'',
      ''  DEL 1'',
      ''  WHOAMI'',
      ''  QUIT'']"

definition details :: "(string \<times> string list) list" where
  "details =
     [(''LOGIN'',
        [''TOPIC: LOGIN'',
         ''Syntax: LOGIN <username> <password>'',
         ''Notes: Must be called before POST/LIST/GET/DEL/WHOAMI.'']),
      (''POST'',
        [''TOPIC: POST'',
         ''Syntax: POST <message...>'',
         ''Notes: Author is your authenticated username; message is the rest of the line.'']),
      (''LIST'',
        [''TOPIC: LIST'',
         ''Syntax: LIST'',
         ''Response: OK LIST <count> followed by <count> post lines.'']),
      (''GET'',
        [''TOPIC: GET'',
         ''Syntax: GET <id>'']),
      (''DEL'',
        [''TOPIC: DEL'',
         ''Syntax: DEL <id>'',
         ''Notes: Allowed if you are admin or you are the post author.'']),
      (''WHOAMI'',
        [''TOPIC: WHOAMI'',
         ''Syntax: WHOAMI'',
         ''Response: OK WHOAMI <username> <role>'']),
      (''HELP'',
        [''TOPIC: HELP'',
         ''Syntax: HELP'',
         ''        HELP <command>'']),
      (''QUIT'',
        [''TOPIC: QUIT'',
         ''Syntax: QUIT'',
         ''Notes: Server will close the connection after responding.''])]"

definition help_response :: "string list \<Rightarrow> string" where
  "help_response body =
     ''OK HELP '' @ str_int (int (length body)) @ ''\<newline>'' @ join ''\<newline>'' body @ ''\<newline>''"

definition handle_help :: handler where
  "handle_help ph now g client rest =
     (let arg = strip rest in
      if arg = [] then (help_response help_body, client, g)
      else
        let parts = split_ws arg in
        if length parts \<noteq> 1 then (''ERR BAD_SYNTAX\<newline>'', client, g)
        else
          let cmd = upper (hd parts) in
          case map_of details cmd of
            None \<Rightarrow> (''ERR UNKNOWN_COMMAND\<newline>'', client, g)
          | Some body \<Rightarrow> (help_response body, client, g))"

definition handle_whoami :: handler where
  "handle_whoami ph now g client rest =
     (case require_auth client of
        Some err \<Rightarrow> (err, client, g)
      | None \<Rightarrow>
          if strip rest \<noteq> [] then (''ERR BAD_SYNTAX\<newline>'', client, g)
          else (''OK WHOAMI '' @ fmt_opt (username client) @ '' '' @ fmt_opt (role client)
                  @ ''\<newline>'', client, g))"

definition handle_login :: handler where
  "handle_login ph now g client rest =
     (if authenticated client then (''ERR Already logged in\<newline>'', client, g)
      else
        case split_ws rest of
          [uname, password] \<Rightarrow>
            (case map_of (USERS g) uname of
               None \<Rightarrow> (''ERR Invalid credentials\<newline>'', client, g)
             | Some rec \<Rightarrow>
                 if \<not> verify_password ph rec password
                 then (''ERR Invalid credentials\<newline>'', client, g)
                 else
                   let r = dict_get rec ''role'' ''user'' in
                   (''OK Logged in as '' @ uname @ '' ('' @ r @ '')\<newline>'',
                    client\<lparr>username := Some uname, role := Some r, authenticated := True\<rparr>,
                    g))
        | _ \<Rightarrow> (''ERR BAD_SYNTAX\<newline>'', client, g))"

definition handle_post :: handler where
  "handle_post ph now g client rest =
     (case require_auth client of
        Some err \<Rightarrow> (err, client, g)
      | None \<Rightarrow>
          if strip rest = [] then (''ERR Empty message\<newline>'', client, g)
          else
            let pid = next_post_id g;
                ts = strftime now;
                post = \<lparr>post_id = pid, author = username client, timestamp = ts,
                        message = rest\<rparr>
            in (''OK Post '' @ str_int pid @ '' created\<newline>'', client,
                g\<lparr>posts := AList.update pid post (posts g), next_post_id := pid + 1\<rparr>))"

definition fmt_post :: "Post \<Rightarrow> string" where
  "fmt_post p =
     str_int (post_id p) @ '' '' @ fmt_opt (author p) @ '' '' @ timestamp p @ '' ''
       @ message p"

text \<open>The keys that \<open>handle_list\<close> looks up are the dictionary's own, so the lookup finds
  every one of them.\<close>

definition handle_list :: handler where
  "handle_list ph now g client rest =
     (case require_auth client of
        Some err \<Rightarrow> (err, client, g)
      | None \<Rightarrow>
          if strip rest \<noteq> [] then (''ERR BAD_SYNTAX\<newline>'', client, g)
          else
            let lines = (''OK LIST '' @ str_int (int (length (posts g))))
                  # map (\<lambda>k. fmt_post (the (map_of (posts g) k))) (sort (map fst (posts g)))
            in (join ''\<newline>'' lines @ ''\<newline>'', client, g))"

definition handle_get :: handler where
  "handle_get ph now g client rest =
     (case require_auth client of
        Some err \<Rightarrow> (err, client, g)
      | None \<Rightarrow>
          let parts = split_ws rest in
          if length parts \<noteq> 1 then (''ERR BAD_SYNTAX\<newline>'', client, g)
          else
            (case py_int (hd parts) of
               None \<Rightarrow> (''ERR BAD_SYNTAX\<newline>'', client, g)
             | Some pid \<Rightarrow>
                 (case map_of (posts g) pid of
                    None \<Rightarrow> (''ERR Not found\<newline>'', client, g)
                  | Some post \<Rightarrow> (''OK '' @ fmt_post post @ ''\<newline>'', client, g))))"

definition handle_del :: handler where
  "handle_del ph now g client rest =
     (case require_auth client of
        Some err \<Rightarrow> (err, client, g)
      | None \<Rightarrow>
          let parts = split_ws rest in
          if length parts \<noteq> 1 then (''ERR BAD_SYNTAX\<newline>'', client, g)
          else
            (case py_int (hd parts) of
               None \<Rightarrow> (''ERR BAD_SYNTAX\<newline>'', client, g)
             | Some pid \<Rightarrow>
                 (case map_of (posts g) pid of
                    None \<Rightarrow> (''ERR Not found\<newline>'', client, g)
                  | Some post \<Rightarrow>
                      if role client \<noteq> Some ''admin'' \<and> author post \<noteq> username client
                      then (''ERR Not authorized\<newline>'', client, g)
                      else (''OK Deleted '' @ str_int pid @ ''\<newline>'', client,
                            g\<lparr>posts := AList.delete pid (posts g)\<rparr>))))"

definition handle_quit :: handler where
  "handle_quit ph now g client rest =
     (if strip rest \<noteq> [] then (''ERR BAD_SYNTAX\<newline>'', client, g)
      else (''OK Bye\<newline>'', client, g))"

definition COMMANDS :: "(string \<times> handler \<times> bool) list" where
  "COMMANDS =
     [(''HELP'', (handle_help, False)),
      (''LOGIN'', (handle_login, False)),
      (''POST'', (handle_post, False)),
      (''LIST'', (handle_list, False)),
      (''GET'', (handle_get, False)),
      (''DEL'', (handle_del, False)),
      (''WHOAMI'', (handle_whoami, False)),
      (''QUIT'', (handle_quit, True))]"

text \<open>
  \<open>process_line\<close> returns the response (\<open>None\<close> when there is none) and the flag that
  asks the server to close the connection, here with the client's state and the globals
  as the handler left them.
\<close>

fun process_line ::
  "PasswordHasher \<Rightarrow> struct_time \<Rightarrow> store \<Rightarrow> ClientState \<Rightarrow> string option
     \<Rightarrow> string option \<times> bool \<times> ClientState \<times> store" where
  "process_line ph now g client None = (None, False, client, g)"
| "process_line ph now g client (Some line) =
     (if line = [] then (None, False, client, g)
      else
        let parts = split1 CHR '' '' line;
            cmd = upper (hd parts);
            rest = (if length parts > 1 then parts ! 1 else [])
        in case map_of COMMANDS cmd of
             None \<Rightarrow> (Some ''ERR UNKNOWN_COMMAND\<newline>'', False, client, g)
           | Some (handler, should_close) \<Rightarrow>
               (let (response, client', g') = handler ph now g client rest
                in (Some response, should_close, client', g')))"

section \<open>The reactor of server.py\<close>

definition MAX_BUFFER_BYTES :: nat where
  "MAX_BUFFER_BYTES = 64 * 1024"

definition LF :: char where
  "LF = CHR 0x0A"

definition CR :: char where
  "CR = CHR 0x0D"

text \<open>
  What \<open>sock.recv(4096)\<close> gives: it raises \<open>ConnectionError\<close>, or returns bytes (none when
  the peer has closed).
\<close>

datatype recv_result = ConnectionError | Data string

text \<open>\<open>data.decode("utf-8")\<close>: the text when the bytes are well-formed UTF-8, \<open>None\<close> for
  \<open>UnicodeDecodeError\<close>.\<close>

definition byte_in :: "nat \<Rightarrow> nat \<Rightarrow> char \<Rightarrow> bool" where
  "byte_in lo hi c = (lo \<le> of_char c \<and> (of_char c :: nat) \<le> hi)"

fun valid_utf8 :: "string \<Rightarrow> bool" where
  "valid_utf8 [] = True"
| "valid_utf8 [a] = byte_in 0x00 0x7F a"
| "valid_utf8 [a, b] =
     (if byte_in 0x00 0x7F a then valid_utf8 [b]
      else byte_in 0xC2 0xDF a \<and> byte_in 0x80 0xBF b)"
| "valid_utf8 [a, b, c] =
     (if byte_in 0x00 0x7F a then valid_utf8 [b, c]
      else if byte_in 0xC2 0xDF a then byte_in 0x80 0xBF b \<and> valid_utf8 [c]
      else (byte_in 0xE0 0xE0 a \<and> byte_in 0xA0 0xBF b
            \<or> byte_in 0xE1 0xEC a \<and> byte_in 0x80 0xBF b
            \<or> byte_in 0xED 0xED a \<and> byte_in 0x80 0x9F b
            \<or> byte_in 0xEE 0xEF a \<and> byte_in 0x80 0xBF b)
           \<and> byte_in 0x80 0xBF c)"
| "valid_utf8 (a # b # c # d # s) =
     (if byte_in 0x00 0x7F a then valid_utf8 (b # c # d # s)
      else if byte_in 0xC2 0xDF a then byte_in 0x80 0xBF b \<and> valid_utf8 (c # d # s)
      else if byte_in 0xE0 0xEF a then
           (byte_in 0xE0 0xE0 a \<and> byte_in 0xA0 0xBF b
            \<or> byte_in 0xE1 0xEC a \<and> byte_in 0x80 0xBF b
            \<or> byte_in 0xED 0xED a \<and> byte_in 0x80 0x9F b
            \<or> byte_in 0xEE 0xEF a \<and> byte_in 0x80 0xBF b)
           \<and> byte_in 0x80 0xBF c \<and> valid_utf8 (d # s)
      else (byte_in 0xF0 0xF0 a \<and> byte_in 0x90 0xBF b
            \<or> byte_in 0xF1 0xF3 a \<and> byte_in 0x80 0xBF b
            \<or> byte_in 0xF4 0xF4 a \<and> byte_in 0x80 0x8F b)
           \<and> byte_in 0x80 0xBF c \<and> byte_in 0x80 0xBF d \<and> valid_utf8 s)"

definition decode_utf8 :: "string \<Rightarrow> string option" where
  "decode_utf8 bytes = (if valid_utf8 bytes then Some bytes else None)"

text \<open>
  The server's state: the dictionary \<open>clients\<close> (keyed by socket, a number here), the
  globals of protocol.py, and what it has done to its sockets: every \<open>sendall\<close> with the
  socket, the bytes and whether it succeeded, and every socket it has closed.
\<close>

record server =
  clients :: "(nat \<times> ClientState) list"
  globals :: store
  wire :: "(nat \<times> string \<times> bool) list"
  closed :: "nat list"

text \<open>
  What the program does not decide: the hasher, the clock and the network. \<open>localtime n\<close>
  is the reading of the clock and \<open>sendall_ok n\<close> tells whether \<open>sendall\<close> succeeds (it
  raises \<open>ConnectionError\<close> otherwise) when \<open>n\<close> responses have been written so far.
\<close>

record world =
  hasher :: PasswordHasher
  localtime :: "nat \<Rightarrow> struct_time"
  sendall_ok :: "nat \<Rightarrow> bool"

definition sendall :: "world \<Rightarrow> server \<Rightarrow> nat \<Rightarrow> string \<Rightarrow> bool \<times> server" where
  "sendall W st sock bytes =
     (let ok = sendall_ok W (length (wire st))
      in (ok, st\<lparr>wire := wire st @ [(sock, bytes, ok)]\<rparr>))"

definition close_client :: "server \<Rightarrow> nat \<Rightarrow> server" where
  "close_client st sock =
     st\<lparr>closed := closed st @ [sock], clients := AList.delete sock (clients st)\<rparr>"

text \<open>
  One line taken from the buffer and handled: the body of the \<open>while\<close> loop of
  \<open>handle_client_socket\<close> after the split. The result is the client to go on with, or
  \<open>None\<close> when the loop has returned (the connection is closed).
\<close>

definition handle_line ::
  "world \<Rightarrow> server \<Rightarrow> nat \<Rightarrow> ClientState \<Rightarrow> string \<Rightarrow> ClientState option \<times> server" where
  "handle_line W st sock client line =
     (case process_line (hasher W) (localtime W (length (wire st))) (globals st) client (Some line) of
        (response, should_close, client', g') \<Rightarrow>
          let st1 = st\<lparr>globals := g'\<rparr>;
              (sent, st2) =
                (case response of
                   None \<Rightarrow> (True, st1)
                 | Some r \<Rightarrow> if r = [] then (True, st1) else sendall W st1 sock r)
          in if \<not> sent then (None, close_client st2 sock)
             else if should_close then (None, close_client st2 sock)
             else (Some client', st2))"

text \<open>
  The two parts \<open>process_line\<close> makes of a line: what stands before its first space, and
  what stands after that space (nothing when the line has no space).
\<close>

definition command_token :: "string \<Rightarrow> string" where
  "command_token line = takeWhile (\<lambda>c. c \<noteq> CHR '' '') line"

definition payload :: "string \<Rightarrow> string" where
  "payload line = tl (dropWhile (\<lambda>c. c \<noteq> CHR '' '') line)"

text \<open>What \<open>process_line\<close> returns for a handler's result and the command's flag.\<close>

definition respond ::
  "bool \<Rightarrow> string \<times> ClientState \<times> store \<Rightarrow> string option \<times> bool \<times> ClientState \<times> store" where
  "respond should_close x = (Some (fst x), should_close, snd x)"

section \<open>Facts about the dispatcher\<close>

lemma respond_simp [simp]: "respond sc (r, c, g) = (Some r, sc, c, g)"
  by (simp add: respond_def)

lemma COMMANDS_cases:
  assumes "map_of COMMANDS cmd = Some (h, sc)"
  shows "(cmd = ''HELP'' \<and> h = handle_help \<and> \<not> sc)
       \<or> (cmd = ''LOGIN'' \<and> h = handle_login \<and> \<not> sc)
       \<or> (cmd = ''POST'' \<and> h = handle_post \<and> \<not> sc)
       \<or> (cmd = ''LIST'' \<and> h = handle_list \<and> \<not> sc)
       \<or> (cmd = ''GET'' \<and> h = handle_get \<and> \<not> sc)
       \<or> (cmd = ''DEL'' \<and> h = handle_del \<and> \<not> sc)
       \<or> (cmd = ''WHOAMI'' \<and> h = handle_whoami \<and> \<not> sc)
       \<or> (cmd = ''QUIT'' \<and> h = handle_quit \<and> sc)"
  using assms unfolding COMMANDS_def
  by (simp split: if_splits)

lemma split1_without:
  assumes "sep \<notin> set s"
  shows "split1 sep s = [s]"
proof -
  have "dropWhile (\<lambda>c. c \<noteq> sep) s = []"
    using assms by auto
  then show ?thesis
    unfolding split1_def by (simp only: list.case)
qed

lemma split1_with:
  assumes "sep \<in> set s"
  shows "split1 sep s = [takeWhile (\<lambda>c. c \<noteq> sep) s, tl (dropWhile (\<lambda>c. c \<noteq> sep) s)]"
proof -
  have "dropWhile (\<lambda>c. c \<noteq> sep) s \<noteq> []"
    using assms by auto
  then obtain x after where eq: "dropWhile (\<lambda>c. c \<noteq> sep) s = x # after"
    by (cases "dropWhile (\<lambda>c. c \<noteq> sep) s") auto
  show ?thesis
    unfolding split1_def eq by simp
qed

lemma split1_space_parts:
  "hd (split1 CHR '' '' line) = command_token line"
  "(if 1 < length (split1 CHR '' '' line) then split1 CHR '' '' line ! 1 else []) = payload line"
proof -
  show "hd (split1 CHR '' '' line) = command_token line"
  proof (cases "CHR '' '' \<in> set line")
    case True
    then show ?thesis by (simp add: split1_with command_token_def)
  next
    case False
    then have tw: "takeWhile (\<lambda>c. c \<noteq> CHR '' '') line = line"
      by auto
    show ?thesis
      unfolding command_token_def tw split1_without [OF False] by simp
  qed
  show "(if 1 < length (split1 CHR '' '' line) then split1 CHR '' '' line ! 1 else []) = payload line"
  proof (cases "CHR '' '' \<in> set line")
    case True
    then show ?thesis by (simp add: split1_with payload_def)
  next
    case False
    then have dw: "dropWhile (\<lambda>c. c \<noteq> CHR '' '') line = []"
      by auto
    show ?thesis
      unfolding payload_def dw split1_without [OF False] by simp
  qed
qed

lemma process_line_eq:
  assumes "line \<noteq> []"
  shows "process_line ph now g c (Some line) =
     (case map_of COMMANDS (upper (command_token line)) of
        None \<Rightarrow> (Some ''ERR UNKNOWN_COMMAND\<newline>'', False, c, g)
      | Some hs \<Rightarrow> respond (snd hs) (fst hs ph now g c (payload line)))"
  unfolding process_line.simps Let_def split1_space_parts
  using assms by (simp add: respond_def split: option.split prod.split)

lemma process_line_None [simp]: "process_line ph now g c None = (None, False, c, g)"
  by simp

lemma process_line_empty [simp]: "process_line ph now g c (Some []) = (None, False, c, g)"
  by simp

declare process_line.simps [simp del]

lemma process_line_command:
  assumes "map_of COMMANDS (upper (command_token line)) = Some (h, sc)"
  shows "process_line ph now g c (Some line) = respond sc (h ph now g c (payload line))"
proof -
  have "line \<noteq> []"
    using assms by (auto simp: command_token_def upper_def COMMANDS_def)
  then show ?thesis
    by (simp add: process_line_eq assms)
qed

lemma process_line_unknown:
  assumes "line \<noteq> []" and "map_of COMMANDS (upper (command_token line)) = None"
  shows "process_line ph now g c (Some line) = (Some ''ERR UNKNOWN_COMMAND\<newline>'', False, c, g)"
  using assms by (simp add: process_line_eq)

lemma handle_help_client: "handle_help ph now g c rest = (r, c', g') \<Longrightarrow> c' = c \<and> g' = g"
  by (auto simp: handle_help_def Let_def split: if_splits option.splits)

lemma handle_whoami_client: "handle_whoami ph now g c rest = (r, c', g') \<Longrightarrow> c' = c \<and> g' = g"
  by (auto simp: handle_whoami_def Let_def split: if_splits option.splits)

lemma handle_list_client: "handle_list ph now g c rest = (r, c', g') \<Longrightarrow> c' = c \<and> g' = g"
  by (auto simp: handle_list_def Let_def split: if_splits option.splits)

lemma handle_get_client: "handle_get ph now g c rest = (r, c', g') \<Longrightarrow> c' = c \<and> g' = g"
  by (auto simp: handle_get_def Let_def split: if_splits option.splits)

lemma handle_quit_client: "handle_quit ph now g c rest = (r, c', g') \<Longrightarrow> c' = c \<and> g' = g"
  by (auto simp: handle_quit_def Let_def split: if_splits option.splits)

lemma handle_del_client: "handle_del ph now g c rest = (r, c', g') \<Longrightarrow> c' = c"
  by (auto simp: handle_del_def Let_def split: if_splits option.splits)

lemma handle_post_client: "handle_post ph now g c rest = (r, c', g') \<Longrightarrow> c' = c"
  by (auto simp: handle_post_def Let_def split: if_splits option.splits)

lemma handle_login_buffer: "handle_login ph now g c rest = (r, c', g') \<Longrightarrow> buffer c' = buffer c \<and> g' = g"
  by (auto simp: handle_login_def Let_def split: if_splits option.splits list.splits)

lemma handler_buffer:
  assumes "map_of COMMANDS cmd = Some (h, sc)" and "h ph now g c rest = (r, c', g')"
  shows "buffer c' = buffer c"
  using COMMANDS_cases [OF assms(1)] assms(2)
  by (auto dest: handle_help_client handle_whoami_client handle_list_client
        handle_get_client handle_quit_client handle_del_client handle_post_client
        handle_login_buffer)

lemma process_line_buffer:
  assumes "process_line ph now g c l = (r, sc, c', g')"
  shows "buffer c' = buffer c"
proof (cases l)
  case None
  with assms show ?thesis by simp
next
  case (Some line)
  show ?thesis
  proof (cases "line = []")
    case True
    with assms Some show ?thesis by simp
  next
    case False
    show ?thesis
    proof (cases "map_of COMMANDS (upper (command_token line))")
      case None
      with assms Some False show ?thesis
        by (simp add: process_line_unknown)
    next
      case (Some hs)
      obtain h fl where hs: "hs = (h, fl)"
        by (cases hs)
      obtain rr cc gg where run: "h ph now g c (payload line) = (rr, cc, gg)"
        by (cases "h ph now g c (payload line)")
      from assms \<open>l = Some line\<close> Some hs run have "c' = cc"
        by (simp add: process_line_command)
      with handler_buffer [OF Some [unfolded hs] run] show ?thesis
        by simp
    qed
  qed
qed

lemma handle_line_buffer:
  assumes "handle_line W st sock c line = (Some c', st')"
  shows "buffer c' = buffer c"
proof -
  obtain r sc c2 g2 where
    pl: "process_line (hasher W) (localtime W (length (wire st))) (globals st) c (Some line) = (r, sc, c2, g2)"
    by (metis prod_cases4)
  from assms have "c' = c2"
    unfolding handle_line_def pl by (auto simp: Let_def split: prod.splits if_splits)
  with process_line_buffer [OF pl] show ?thesis by simp
qed

lemma split1_rest_shorter:
  assumes "sep \<in> set s"
  shows "length (split1 sep s ! 1) < length s"
proof -
  have "dropWhile (\<lambda>c. c \<noteq> sep) s \<noteq> []"
    using assms by auto
  then have "length (tl (dropWhile (\<lambda>c. c \<noteq> sep) s)) < length (dropWhile (\<lambda>c. c \<noteq> sep) s)"
    by (cases "dropWhile (\<lambda>c. c \<noteq> sep) s") auto
  also have "\<dots> \<le> length s"
    by (rule length_dropWhile_le)
  finally show ?thesis
    by (simp add: split1_with [OF assms])
qed

text \<open>
  The \<open>while\<close> loop of \<open>handle_client_socket\<close>: as long as the buffer holds a line feed,
  the text before the first one is taken off, its trailing carriage returns are removed, and
  the line is handled unless it is empty. The buffer gets shorter with every line, so the
  loop ends. The client's state is written back under its socket when the loop ends; a
  closed client is gone from \<open>clients\<close>.
\<close>

function read_lines :: "world \<Rightarrow> server \<Rightarrow> nat \<Rightarrow> ClientState \<Rightarrow> server" where
  "read_lines W st sock client =
     (if LF \<notin> set (buffer client)
      then st\<lparr>clients := AList.update sock client (clients st)\<rparr>
      else
        let parts = split1 LF (buffer client);
            raw_line = hd parts;
            client1 = client\<lparr>buffer := parts ! 1\<rparr>;
            line = rstrip [CR] raw_line
        in if line = [] then read_lines W st sock client1
           else
             (case handle_line W st sock client1 line of
                (None, st') \<Rightarrow> st'
              | (Some client2, st') \<Rightarrow> read_lines W st' sock client2))"
  by pat_completeness auto
termination
proof (relation "measure (\<lambda>(W, st, sock, client). length (buffer client))", goal_cases)
  case 1
  show ?case by simp
next
  case (2 W st sock client x xa xb xc)
  then show ?case
    using split1_rest_shorter [of LF "buffer client"] by simp
next
  case (3 W st sock client x xa xb xc xd y x2)
  then have "handle_line W st sock xb xc = (Some x2, y)"
    by simp
  then have "buffer x2 = buffer xb"
    by (rule handle_line_buffer)
  with 3 show ?case
    using split1_rest_shorter [of LF "buffer client"] by simp
qed

declare read_lines.simps [simp del]

text \<open>
  \<open>handle_client_socket(sock)\<close>, given what its one \<open>recv\<close> returns. A socket that is not in
  \<open>clients\<close> is closed and nothing is read.
\<close>

definition handle_client_socket :: "world \<Rightarrow> server \<Rightarrow> nat \<Rightarrow> recv_result \<Rightarrow> server" where
  "handle_client_socket W st sock received =
     (case map_of (clients st) sock of
        None \<Rightarrow> st\<lparr>closed := closed st @ [sock]\<rparr>
      | Some client \<Rightarrow>
          let data = (case received of ConnectionError \<Rightarrow> [] | Data bytes \<Rightarrow> bytes) in
          if data = [] then close_client st sock
          else
            (case decode_utf8 data of
               None \<Rightarrow> close_client st sock
             | Some text \<Rightarrow>
                 let client1 = client\<lparr>buffer := buffer client @ text\<rparr> in
                 if length (buffer client1) > MAX_BUFFER_BYTES
                 then close_client (snd (sendall W st sock ''ERR Line too long\<newline>'')) sock
                 else read_lines W st sock client1))"

text \<open>
  The loop of \<open>main\<close>: every socket that \<open>select\<close> reports is either the listening socket,
  where a connection is accepted and gets a fresh \<open>ClientState\<close>, or a client's socket.
\<close>

datatype event = Accept nat | Readable nat recv_result

fun serve :: "world \<Rightarrow> server \<Rightarrow> event \<Rightarrow> server" where
  "serve W st (Accept new_sock) =
     st\<lparr>clients := AList.update new_sock new_client (clients st)\<rparr>"
| "serve W st (Readable sock received) = handle_client_socket W st sock received"

definition main_loop :: "world \<Rightarrow> server \<Rightarrow> event list \<Rightarrow> server" where
  "main_loop W st events = foldl (serve W) st events"

definition initial_server :: "world \<Rightarrow> server" where
  "initial_server W =
     \<lparr>clients = [], globals = initial_store (hasher W), wire = [], closed = []\<rparr>"

section \<open>Concrete inputs\<close>

text \<open>
  A hasher, a clock reading, sessions and a store to run the model on: the hasher stands for
  Argon2 (it accepts exactly the password it hashed), the store holds the seeded users and
  one post of oliver's.
\<close>

definition example_hasher :: PasswordHasher where
  "example_hasher =
     \<lparr>ph_hash = (\<lambda>password. ''$argon2id$'' @ password),
      ph_verify = (\<lambda>stored_hash password. stored_hash = ''$argon2id$'' @ password)\<rparr>"

definition example_time :: struct_time where
  "example_time =
     \<lparr>tm_year = 2024, tm_mon = 3, tm_mday = 9, tm_hour = 14, tm_min = 5, tm_sec = 0\<rparr>"

definition session :: "string \<Rightarrow> string \<Rightarrow> ClientState" where
  "session uname r =
     \<lparr>buffer = [], username = Some uname, role = Some r, authenticated = True\<rparr>"

definition example_post :: Post where
  "example_post =
     \<lparr>post_id = 1, author = Some ''oliver'', timestamp = ''2024-03-09T14:05:00'',
      message = ''hello world''\<rparr>"

definition example_store :: store where
  "example_store = \<lparr>USERS = hash_seeded_users example_hasher, posts = [(1, example_post)],
     next_post_id = 2\<rparr>"

definition example_world :: world where
  "example_world =
     \<lparr>hasher = example_hasher, localtime = (\<lambda>n. example_time), sendall_ok = (\<lambda>n. True)\<rparr>"

section \<open>DEL: existence, then authorization\<close>

lemma handle_del_eq:
  assumes "authenticated S" and "split_ws rest = [tok]" and "py_int tok = Some i"
  shows "handle_del ph now g S rest =
     (case map_of (posts g) i of
        None \<Rightarrow> (''ERR Not found\<newline>'', S, g)
      | Some P \<Rightarrow>
          if role S = Some ''admin'' \<or> author P = username S
          then (''OK Deleted '' @ str_int i @ ''\<newline>'', S,
                g\<lparr>posts := AList.delete i (posts g)\<rparr>)
          else (''ERR Not authorized\<newline>'', S, g))"
  using assms by (simp add: handle_del_def require_auth_def split: option.split)

lemma COMMANDS_DEL: "map_of COMMANDS ''DEL'' = Some (handle_del, False)"
  by (simp add: COMMANDS_def)

text \<open>
  Claim C1. An authenticated session \<open>S\<close> sends a DEL line whose one argument reads as the
  integer \<open>i\<close>. If no post has the id \<open>i\<close>, the response is \<open>ERR Not found\<close>, whatever the
  role of \<open>S\<close>: existence is looked at first. If the post \<open>P\<close> has the id \<open>i\<close>, then the post
  is deleted (it is gone from the store, every other post stays) with the response
  \<open>OK Deleted i\<close> when \<open>S\<close> is an admin or is the author of \<open>P\<close>, and otherwise the response
  is \<open>ERR Not authorized\<close> and the store is as it was. In every case the session is
  unchanged and the connection stays open.
\<close>

theorem del_authorization:
  assumes "authenticated S"
    and "upper (command_token line) = ''DEL''"
    and "split_ws (payload line) = [tok]"
    and "py_int tok = Some i"
  shows "(map_of (posts g) i = None \<longrightarrow>
            process_line ph now g S (Some line) = (Some ''ERR Not found\<newline>'', False, S, g))
       \<and> (\<forall>P. map_of (posts g) i = Some P \<longrightarrow>
            (if role S = Some ''admin'' \<or> username S = author P
             then process_line ph now g S (Some line) =
                    (Some (''OK Deleted '' @ str_int i @ ''\<newline>''), False, S,
                     g\<lparr>posts := AList.delete i (posts g)\<rparr>)
                  \<and> map_of (AList.delete i (posts g)) = (map_of (posts g))(i := None)
             else process_line ph now g S (Some line) =
                    (Some ''ERR Not authorized\<newline>'', False, S, g)))"
proof -
  have "process_line ph now g S (Some line) = respond False (handle_del ph now g S (payload line))"
    using assms(2) by (simp add: process_line_command COMMANDS_DEL)
  then show ?thesis
    by (auto simp: handle_del_eq [OF assms(1,3,4)] delete_conv')
qed

lemma split_ws_digit: "split_ws ''1'' = [''1'']" "split_ws ''7'' = [''7'']"
  by (simp_all add: split_ws.simps isspace_def)

lemma py_int_digit: "py_int ''1'' = Some 1" "py_int ''7'' = Some 7"
  by (simp_all add: py_int_def isdigit_def digit_val_def int_max_str_digits_def)

lemma str_int_1: "str_int 1 = ''1''"
  by (simp add: str_int_def str_nat.simps)

lemma DEL_lines:
  "upper (command_token ''DEL 1'') = ''DEL''" "upper (command_token ''del 7'') = ''DEL''"
  "payload ''DEL 1'' = ''1''" "payload ''del 7'' = ''7''"
  by (simp_all add: upper_def upper_char_def command_token_def payload_def)

theorem del_authorization_witness:
  "process_line example_hasher example_time example_store (session ''oliver'' ''user'')
     (Some ''DEL 1'')
   = (Some ''OK Deleted 1\<newline>'', False, session ''oliver'' ''user'',
      example_store\<lparr>posts := []\<rparr>)
   \<and> process_line example_hasher example_time example_store (session ''admin'' ''admin'')
     (Some ''DEL 1'')
   = (Some ''OK Deleted 1\<newline>'', False, session ''admin'' ''admin'',
      example_store\<lparr>posts := []\<rparr>)
   \<and> process_line example_hasher example_time example_store (session ''sam'' ''user'')
     (Some ''DEL 1'')
   = (Some ''ERR Not authorized\<newline>'', False, session ''sam'' ''user'', example_store)
   \<and> process_line example_hasher example_time example_store (session ''admin'' ''admin'')
     (Some ''del 7'')
   = (Some ''ERR Not found\<newline>'', False, session ''admin'' ''admin'', example_store)"
  using
    del_authorization [of "session ''oliver'' ''user''" "''DEL 1''" "''1''" 1 example_store
      example_hasher example_time]
    del_authorization [of "session ''admin'' ''admin''" "''DEL 1''" "''1''" 1 example_store
      example_hasher example_time]
    del_authorization [of "session ''sam'' ''user''" "''DEL 1''" "''1''" 1 example_store
      example_hasher example_time]
    del_authorization [of "session ''admin'' ''admin''" "''del 7''" "''7''" 7 example_store
      example_hasher example_time]
  by (simp add: DEL_lines split_ws_digit py_int_digit str_int_1 session_def example_store_def
        example_post_def)

section \<open>LOGIN\<close>

lemma COMMANDS_LOGIN: "map_of COMMANDS ''LOGIN'' = Some (handle_login, False)"
  by (simp add: COMMANDS_def)

text \<open>
  Claim C10. For a session that is already authenticated, every LOGIN line, whatever follows
  the command (nothing, one argument, two, or more), gets the response
  \<open>ERR Already logged in\<close>, never \<open>ERR BAD_SYNTAX\<close>: the check of the session comes before
  the count of the arguments. The session (username, role, authenticated flag), the globals
  and the connection stay as they were.
\<close>

theorem login_already_logged_in:
  assumes "authenticated S" and "upper (command_token line) = ''LOGIN''"
  shows "process_line ph now g S (Some line)
         = (Some ''ERR Already logged in\<newline>'', False, S, g)"
proof -
  have "map_of COMMANDS (upper (command_token line)) = Some (handle_login, False)"
    using assms(2) by (simp add: COMMANDS_LOGIN)
  from process_line_command [OF this] show ?thesis
    using assms(1) by (simp add: handle_login_def)
qed

lemma LOGIN_lines:
  "upper (command_token ''LOGIN'') = ''LOGIN''"
  "upper (command_token ''login sam'') = ''LOGIN''"
  "upper (command_token ''LOGIN sam pw2 extra'') = ''LOGIN''"
  "upper (command_token ''LOGIN nosuch pw'') = ''LOGIN''"
  "upper (command_token ''LOGIN oliver wrong'') = ''LOGIN''"
  by (simp_all add: upper_def upper_char_def command_token_def)

theorem login_already_logged_in_witness:
  "authenticated (session ''oliver'' ''user'')
   \<and> process_line example_hasher example_time example_store (session ''oliver'' ''user'')
       (Some ''LOGIN'')
     = (Some ''ERR Already logged in\<newline>'', False, session ''oliver'' ''user'', example_store)
   \<and> process_line example_hasher example_time example_store (session ''oliver'' ''user'')
       (Some ''login sam'')
     = (Some ''ERR Already logged in\<newline>'', False, session ''oliver'' ''user'', example_store)
   \<and> process_line example_hasher example_time example_store (session ''oliver'' ''user'')
       (Some ''LOGIN sam pw2 extra'')
     = (Some ''ERR Already logged in\<newline>'', False, session ''oliver'' ''user'', example_store)"
  using
    login_already_logged_in [of "session ''oliver'' ''user''" "''LOGIN''" example_hasher
      example_time example_store]
    login_already_logged_in [of "session ''oliver'' ''user''" "''login sam''" example_hasher
      example_time example_store]
    login_already_logged_in [of "session ''oliver'' ''user''" "''LOGIN sam pw2 extra''"
      example_hasher example_time example_store]
  by (simp add: LOGIN_lines session_def)


















section \<open>Syntax errors and the close flag\<close>














section \<open>The command and its payload\<close>













section \<open>The cap on the buffer\<close>

text \<open>
  Claim C6. A client's socket delivers bytes that decode, and the client's buffer with the
  decoded text appended is longer than \<open>MAX_BUFFER_BYTES\<close> (64 KiB, counted in encoded
  bytes). Then \<open>handle_client_socket\<close> does exactly this: one \<open>sendall\<close> of
  \<open>ERR Line too long\<close> to that socket, whether it succeeds or not; the socket is closed and
  its client removed from \<open>clients\<close>. No line is taken from the buffer and none is
  dispatched: the globals (posts, users, next id) are as before, and so is the state of
  every other client, its session and its buffer.
\<close>

theorem oversized_buffer_closes:
  assumes "map_of (clients st) sock = Some client"
    and "bytes \<noteq> []"
    and "decode_utf8 bytes = Some text"
    and "length (buffer client @ text) > MAX_BUFFER_BYTES"
  shows "handle_client_socket W st sock (Data bytes)
         = st\<lparr>wire := wire st
                   @ [(sock, ''ERR Line too long\<newline>'', sendall_ok W (length (wire st)))],
               closed := closed st @ [sock],
               clients := AList.delete sock (clients st)\<rparr>
       \<and> globals (handle_client_socket W st sock (Data bytes)) = globals st
       \<and> map_of (clients (handle_client_socket W st sock (Data bytes))) sock = None
       \<and> (\<forall>other. other \<noteq> sock \<longrightarrow>
             map_of (clients (handle_client_socket W st sock (Data bytes))) other
               = map_of (clients st) other)"
proof -
  have "handle_client_socket W st sock (Data bytes)
         = st\<lparr>wire := wire st
                   @ [(sock, ''ERR Line too long\<newline>'', sendall_ok W (length (wire st)))],
               closed := closed st @ [sock],
               clients := AList.delete sock (clients st)\<rparr>"
    using assms by (simp add: handle_client_socket_def Let_def sendall_def close_client_def)
  then show ?thesis
    by (simp add: delete_conv')
qed

text \<open>A server with two clients, the first with 64 KiB buffered and no line feed yet.\<close>

definition full_buffer_server :: server where
  "full_buffer_server =
     \<lparr>clients = [(3, new_client\<lparr>buffer := replicate 65536 (CHR ''A'')\<rparr>),
                 (4, (session ''sam'' ''user'')\<lparr>buffer := ''LI''\<rparr>)],
      globals = example_store, wire = [], closed = []\<rparr>"

lemma decode_LIST: "decode_utf8 ''LIST\<newline>'' = Some ''LIST\<newline>''"
  by (simp add: decode_utf8_def byte_in_def)

theorem oversized_buffer_closes_witness:
  "handle_client_socket example_world full_buffer_server 3 (Data ''LIST\<newline>'')
   = \<lparr>clients = [(4, (session ''sam'' ''user'')\<lparr>buffer := ''LI''\<rparr>)],
      globals = example_store,
      wire = [(3, ''ERR Line too long\<newline>'', True)],
      closed = [3]\<rparr>"
  using oversized_buffer_closes [of full_buffer_server 3
      "new_client\<lparr>buffer := replicate 65536 (CHR ''A'')\<rparr>" "''LIST\<newline>''" "''LIST\<newline>''"
      example_world]
  by (simp add: full_buffer_server_def decode_LIST MAX_BUFFER_BYTES_def example_world_def
        new_client_def)

section \<open>Taking lines from the buffer\<close>

lemma split1_at_first:
  assumes "sep \<notin> set raw"
  shows "split1 sep (raw @ sep # rest) = [raw, rest]"
proof -
  have "takeWhile (\<lambda>c. c \<noteq> sep) (raw @ sep # rest) = raw"
    using assms by (induction raw) auto
  moreover have "dropWhile (\<lambda>c. c \<noteq> sep) (raw @ sep # rest) = sep # rest"
    using assms by (induction raw) auto
  ultimately show ?thesis
    by (simp add: split1_with)
qed

lemma rstrip_replicate:
  assumes "line = [] \<or> last line \<noteq> c"
  shows "rstrip [c] (line @ replicate k c) = line"
proof -
  have "dropWhile (\<lambda>x. x \<in> set [c]) (replicate k c @ rev line)
      = dropWhile (\<lambda>x. x \<in> set [c]) (rev line)"
    by (induction k) auto
  also have "\<dots> = rev line"
  proof (cases line rule: rev_cases)
    case Nil
    then show ?thesis by simp
  next
    case (snoc ys y)
    with assms show ?thesis by simp
  qed
  finally show ?thesis
    by (simp add: rstrip_def)
qed

lemma rstrip_decomposition:
  "\<exists>k. s = rstrip [c] s @ replicate k c \<and> (rstrip [c] s = [] \<or> last (rstrip [c] s) \<noteq> c)"
proof -
  let ?P = "\<lambda>x. x \<in> set [c]"
  have "replicate (length (takeWhile ?P (rev s))) c = takeWhile ?P (rev s)"
    by (rule replicate_length_same) (auto dest: set_takeWhileD)
  then have "rev (takeWhile ?P (rev s)) = replicate (length (takeWhile ?P (rev s))) c"
    by (metis rev_replicate)
  moreover have "s = rev (dropWhile ?P (rev s)) @ rev (takeWhile ?P (rev s))"
    by (metis rev_append rev_rev_ident takeWhile_dropWhile_id)
  ultimately have "s = rstrip [c] s @ replicate (length (takeWhile ?P (rev s))) c"
    by (simp add: rstrip_def)
  moreover have "rstrip [c] s = [] \<or> last (rstrip [c] s) \<noteq> c"
  proof (cases "dropWhile ?P (rev s)")
    case Nil
    then show ?thesis by (simp add: rstrip_def)
  next
    case (Cons y ys)
    then have "\<not> ?P y"
      using hd_dropWhile [of ?P "rev s"] by auto
    with Cons show ?thesis by (simp add: rstrip_def)
  qed
  ultimately show ?thesis by blast
qed

lemma buffer_decomposition:
  assumes "LF \<in> set b"
  shows "\<exists>line k rest. b = line @ replicate k CR @ LF # rest \<and> LF \<notin> set line
           \<and> (line = [] \<or> last line \<noteq> CR)"
proof -
  let ?raw = "takeWhile (\<lambda>c. c \<noteq> LF) b"
  have "dropWhile (\<lambda>c. c \<noteq> LF) b \<noteq> []"
    using assms by auto
  then obtain x rest where eq: "dropWhile (\<lambda>c. c \<noteq> LF) b = x # rest"
    by (cases "dropWhile (\<lambda>c. c \<noteq> LF) b") auto
  have "x = LF"
    using hd_dropWhile [of "\<lambda>c. c \<noteq> LF" b] eq by auto
  with eq takeWhile_dropWhile_id [of "\<lambda>c. c \<noteq> LF" b] have b: "b = ?raw @ LF # rest"
    by simp
  have raw: "LF \<notin> set ?raw"
    by (auto dest: set_takeWhileD)
  obtain k where k: "?raw = rstrip [CR] ?raw @ replicate k CR"
    and l: "rstrip [CR] ?raw = [] \<or> last (rstrip [CR] ?raw) \<noteq> CR"
    using rstrip_decomposition [of ?raw CR] by blast
  have "LF \<notin> set (rstrip [CR] ?raw)"
    using raw k by (metis Un_iff set_append)
  moreover from b k have "b = rstrip [CR] ?raw @ replicate k CR @ LF # rest"
    by (metis append.assoc)
  ultimately show ?thesis
    using l by blast
qed

lemma read_lines_idle:
  assumes "LF \<notin> set (buffer client)"
  shows "read_lines W st sock client = st\<lparr>clients := AList.update sock client (clients st)\<rparr>"
  using assms by (simp add: read_lines.simps)

lemma read_lines_line:
  assumes "buffer client = line @ replicate k CR @ LF # rest" and "LF \<notin> set line"
    and "line = [] \<or> last line \<noteq> CR"
  shows "read_lines W st sock client
             = (if line = [] then read_lines W st sock (client\<lparr>buffer := rest\<rparr>)
                else case handle_line W st sock (client\<lparr>buffer := rest\<rparr>) line of
                       (None, st') \<Rightarrow> st'
                     | (Some client2, st') \<Rightarrow> read_lines W st' sock client2)"
proof -
  have "LF \<noteq> CR"
    by (simp add: LF_def CR_def)
  with assms(2) have raw: "LF \<notin> set (line @ replicate k CR)"
    by auto
  from assms(1) have buf: "buffer client = (line @ replicate k CR) @ LF # rest"
    by simp
  have parts: "split1 LF (buffer client) = [line @ replicate k CR, rest]"
    unfolding buf using raw by (rule split1_at_first)
  have strip: "rstrip [CR] (line @ replicate k CR) = line"
    using assms(3) by (rule rstrip_replicate)
  have "LF \<in> set (buffer client)"
    using buf by simp
  then show ?thesis
    by (subst read_lines.simps) (simp add: parts strip Let_def)
qed

text \<open>
  Claim C8, with all the trailing carriage returns. A buffer without a line feed is left
  pending as it is. A buffer with a line feed is, in exactly one way, a line that does not
  end in a carriage return, then any number of carriage returns, then the first line feed,
  then a rest. The loop takes the text before the first line feed, removes all the carriage
  returns at its end and nothing else (spaces at the start, inside and at the end of the
  line stay), and keeps the rest as the buffer. An empty line is skipped: the loop goes on
  with the rest, no command is dispatched and nothing is sent. Every other line is handed to
  \<open>handle_line\<close> as it is, and the loop goes on with the rest unless the connection was
  closed.
\<close>

theorem read_lines_extracts:
  "(LF \<notin> set (buffer client) \<longrightarrow>
      read_lines W st sock client = st\<lparr>clients := AList.update sock client (clients st)\<rparr>)
   \<and> (\<forall>line k rest.
        buffer client = line @ replicate k CR @ LF # rest \<and> LF \<notin> set line
          \<and> (line = [] \<or> last line \<noteq> CR)
        \<longrightarrow> read_lines W st sock client
             = (if line = [] then read_lines W st sock (client\<lparr>buffer := rest\<rparr>)
                else case handle_line W st sock (client\<lparr>buffer := rest\<rparr>) line of
                       (None, st') \<Rightarrow> st'
                     | (Some client2, st') \<Rightarrow> read_lines W st' sock client2))
   \<and> (LF \<in> set (buffer client) \<longrightarrow>
        (\<exists>line k rest. buffer client = line @ replicate k CR @ LF # rest \<and> LF \<notin> set line
           \<and> (line = [] \<or> last line \<noteq> CR)))"
  using read_lines_idle [of client W st sock] read_lines_line [of client _ _ _ W st sock]
    buffer_decomposition [of "buffer client"]
  by (intro conjI allI impI) simp_all

text \<open>A server with one client, oliver, and a buffer of his to read.\<close>

definition pending_client :: ClientState where
  "pending_client =
     (session ''oliver'' ''user'')\<lparr>buffer := [CR, LF] @ ''WHOAMI'' @ [CR, CR, LF] @ ''PO''\<rparr>"

definition one_client_server :: server where
  "one_client_server =
     \<lparr>clients = [(3, session ''oliver'' ''user'')], globals = example_store, wire = [],
      closed = []\<rparr>"

lemma whoami_line:
  "handle_line example_world one_client_server 3
     ((session ''oliver'' ''user'')\<lparr>buffer := b\<rparr>) ''WHOAMI''
   = (Some ((session ''oliver'' ''user'')\<lparr>buffer := b\<rparr>),
      one_client_server\<lparr>wire := [(3, ''OK WHOAMI oliver user\<newline>'', True)]\<rparr>)"
proof -
  have look: "map_of COMMANDS (upper (command_token ''WHOAMI'')) = Some (handle_whoami, False)"
    by (simp add: upper_def upper_char_def command_token_def COMMANDS_def)
  show ?thesis
    unfolding handle_line_def process_line_command [OF look]
    by (simp add: handle_whoami_def require_auth_def session_def payload_def strip_def
          fmt_opt_def sendall_def one_client_server_def example_world_def Let_def)
qed

theorem read_lines_extracts_witness:
  "read_lines example_world one_client_server 3 pending_client
   = one_client_server
       \<lparr>clients := [(3, (session ''oliver'' ''user'')\<lparr>buffer := ''PO''\<rparr>)],
        wire := [(3, ''OK WHOAMI oliver user\<newline>'', True)]\<rparr>"
proof -
  note step = read_lines_extracts [THEN conjunct2, THEN conjunct1, rule_format]
  note stop = read_lines_extracts [THEN conjunct1, rule_format]
  have ne: "LF \<noteq> CR" "LF \<noteq> CHR ''W''" "LF \<noteq> CHR ''H''" "LF \<noteq> CHR ''O''" "LF \<noteq> CHR ''A''"
    "LF \<noteq> CHR ''M''" "LF \<noteq> CHR ''I''" "LF \<noteq> CHR ''P''" "CHR ''I'' \<noteq> CR"
    by (simp_all add: LF_def CR_def)
  have "read_lines example_world one_client_server 3 pending_client
      = read_lines example_world one_client_server 3
          (pending_client\<lparr>buffer := ''WHOAMI'' @ [CR, CR, LF] @ ''PO''\<rparr>)"
    using step [where client = pending_client and line = "[]" and k = 1
        and rest = "''WHOAMI'' @ [CR, CR, LF] @ ''PO''"]
    by (simp add: pending_client_def)
  also have "\<dots> = read_lines example_world
        (one_client_server\<lparr>wire := [(3, ''OK WHOAMI oliver user\<newline>'', True)]\<rparr>) 3
        ((session ''oliver'' ''user'')\<lparr>buffer := ''PO''\<rparr>)"
    using step [where client = "pending_client\<lparr>buffer := ''WHOAMI'' @ [CR, CR, LF] @ ''PO''\<rparr>"
        and line = "''WHOAMI''" and k = 2 and rest = "''PO''"
        and W = example_world and st = one_client_server and sock = 3]
    by (simp add: pending_client_def ne whoami_line numeral_2_eq_2)
  also have "\<dots> = one_client_server
       \<lparr>clients := [(3, (session ''oliver'' ''user'')\<lparr>buffer := ''PO''\<rparr>)],
        wire := [(3, ''OK WHOAMI oliver user\<newline>'', True)]\<rparr>"
    using stop [where client = "(session ''oliver'' ''user'')\<lparr>buffer := ''PO''\<rparr>"
        and W = example_world and sock = 3
        and st = "one_client_server\<lparr>wire := [(3, ''OK WHOAMI oliver user\<newline>'', True)]\<rparr>"]
    by (simp add: ne one_client_server_def)
  finally show ?thesis .
qed

text \<open>Modelled following the words of the claim: a trailing carriage return is removed.\<close>

definition strip_one_cr :: "string \<Rightarrow> string" where
  "strip_one_cr s = (if s \<noteq> [] \<and> last s = CR then butlast s else s)"

lemma whoami_cr_unknown:
  "process_line example_hasher example_time example_store (session ''oliver'' ''user'')
     (Some (''WHOAMI'' @ [CR]))
   = (Some ''ERR UNKNOWN_COMMAND\<newline>'', False, session ''oliver'' ''user'', example_store)"
proof -
  have "map_of COMMANDS (upper (command_token (''WHOAMI'' @ [CR]))) = None"
    by (simp add: upper_def upper_char_def command_token_def COMMANDS_def CR_def)
  then show ?thesis
    by (intro process_line_unknown) simp_all
qed

text \<open>
  Claim C8 as it is written fails on a line that ends in two carriage returns: with one
  carriage return removed the line \<open>WHOAMI<CR><CR>\<close> would be \<open>WHOAMI<CR>\<close>, which is an
  unknown command, but the server removes both and answers the WHOAMI.
\<close>

theorem read_lines_carriage_returns_counterexample:
  "strip_one_cr (''WHOAMI'' @ [CR, CR]) = ''WHOAMI'' @ [CR]
   \<and> rstrip [CR] (''WHOAMI'' @ [CR, CR]) = ''WHOAMI''
   \<and> process_line example_hasher example_time example_store (session ''oliver'' ''user'')
        (Some (''WHOAMI'' @ [CR]))
      = (Some ''ERR UNKNOWN_COMMAND\<newline>'', False, session ''oliver'' ''user'', example_store)
   \<and> handle_client_socket example_world one_client_server 3 (Data (''WHOAMI'' @ [CR, CR, LF]))
      = one_client_server\<lparr>wire := [(3, ''OK WHOAMI oliver user\<newline>'', True)]\<rparr>"
proof -
  have ne: "LF \<noteq> CR" "LF \<noteq> CHR ''W''" "LF \<noteq> CHR ''H''" "LF \<noteq> CHR ''O''" "LF \<noteq> CHR ''A''"
    "LF \<noteq> CHR ''M''" "LF \<noteq> CHR ''I''" "CHR ''I'' \<noteq> CR"
    by (simp_all add: LF_def CR_def)
  have dec: "decode_utf8 (''WHOAMI'' @ [CR, CR, LF]) = Some (''WHOAMI'' @ [CR, CR, LF])"
    by (simp add: decode_utf8_def byte_in_def CR_def LF_def)
  have strip: "rstrip [CR] (''WHOAMI'' @ [CR, CR]) = ''WHOAMI''"
    using rstrip_replicate [of "''WHOAMI''" CR 2] by (simp add: ne numeral_2_eq_2)
  have "read_lines example_world one_client_server 3
          ((session ''oliver'' ''user'')\<lparr>buffer := ''WHOAMI'' @ [CR, CR, LF]\<rparr>)
        = read_lines example_world
            (one_client_server\<lparr>wire := [(3, ''OK WHOAMI oliver user\<newline>'', True)]\<rparr>) 3
            ((session ''oliver'' ''user'')\<lparr>buffer := []\<rparr>)"
    using read_lines_line [where line = "''WHOAMI''" and k = 2 and rest = "[]"
        and client = "(session ''oliver'' ''user'')\<lparr>buffer := ''WHOAMI'' @ [CR, CR, LF]\<rparr>"
        and W = example_world and st = one_client_server and sock = 3]
    by (simp add: ne whoami_line numeral_2_eq_2)
  also have "\<dots> = one_client_server\<lparr>wire := [(3, ''OK WHOAMI oliver user\<newline>'', True)]\<rparr>"
    using read_lines_idle [where client = "(session ''oliver'' ''user'')\<lparr>buffer := []\<rparr>"
        and W = example_world and sock = 3
        and st = "one_client_server\<lparr>wire := [(3, ''OK WHOAMI oliver user\<newline>'', True)]\<rparr>"]
    by (simp add: one_client_server_def session_def)
  finally have "handle_client_socket example_world one_client_server 3
        (Data (''WHOAMI'' @ [CR, CR, LF]))
      = one_client_server\<lparr>wire := [(3, ''OK WHOAMI oliver user\<newline>'', True)]\<rparr>"
    using dec
    by (simp add: handle_client_socket_def MAX_BUFFER_BYTES_def one_client_server_def
          session_def Let_def)
  with strip whoami_cr_unknown show ?thesis
    by (simp add: strip_one_cr_def ne)
qed

section \<open>The post id counter\<close>

text \<open>\<open>s.startswith(p)\<close>\<close>

definition startswith :: "string \<Rightarrow> string \<Rightarrow> bool" where
  "startswith p s = (take (length p) s = p)"

text \<open>The response to a successful POST that created the post \<open>k\<close>.\<close>

definition post_created :: "int \<Rightarrow> string" where
  "post_created k = ''OK Post '' @ str_int k @ '' created\<newline>''"

text \<open>
  The responses to successful POSTs among all that the server has written, in the order in
  which it wrote them. (No other response starts with \<open>OK Post\<close>.)
\<close>

definition created_responses :: "server \<Rightarrow> string list" where
  "created_responses st = filter (startswith ''OK Post '') (map (\<lambda>(sock, bytes, ok). bytes) (wire st))"

text \<open>
  What holds of the counter after every event: the posts created so far are numbered
  \<open>1, 2, ...\<close> up to the counter less one, and every id in the store is below the counter.
\<close>

definition post_ids_inv :: "server \<Rightarrow> bool" where
  "post_ids_inv st =
     (created_responses st = map post_created [1..next_post_id (globals st) - 1]
      \<and> 1 \<le> next_post_id (globals st)
      \<and> (\<forall>k \<in> fst ` set (posts (globals st)). 1 \<le> k \<and> k < next_post_id (globals st)))"

lemma digit_char: "n < 10 \<Longrightarrow> isdigit (''0123456789'' ! n)"
  unfolding isdigit_def by (rule nth_mem) simp

lemma str_nat_digits: "str_nat n \<noteq> [] \<and> (\<forall>c \<in> set (str_nat n). isdigit c)"
proof (induction n rule: str_nat.induct)
  case (1 n)
  show ?case
  proof (cases "n < 10")
    case True
    then have "str_nat n = [''0123456789'' ! n]"
      by (subst str_nat.simps) simp
    with digit_char [OF True] show ?thesis
      by simp
  next
    case False
    then have eq: "str_nat n = str_nat (n div 10) @ [''0123456789'' ! (n mod 10)]"
      by (subst str_nat.simps) simp
    have "n mod 10 < 10"
      by simp
    from digit_char [OF this] 1 [OF False] show ?thesis
      unfolding eq by simp
  qed
qed

lemma str_int_chars:
  "str_int i \<noteq> [] \<and> (\<forall>c \<in> set (str_int i). c = CHR ''-'' \<or> isdigit c)"
  using str_nat_digits [of "nat (- i)"] str_nat_digits [of "nat i"]
  by (simp add: str_int_def)

lemma isdigit_not: "isdigit c \<Longrightarrow> c \<noteq> CHR ''P'' \<and> c \<noteq> LF"
  by (auto simp: isdigit_def LF_def)

lemma startswith_simps [simp]:
  "startswith [] s"
  "\<not> startswith (p # ps) []"
  "startswith (p # ps) (x # xs) \<longleftrightarrow> p = x \<and> startswith ps xs"
  by (auto simp: startswith_def)

lemma startswith_post_created: "startswith ''OK Post '' (post_created k)"
  by (simp add: post_created_def)

lemma not_post_ok_get: "\<not> startswith (CHR ''P'' # ps) (str_int i @ t)"
proof -
  obtain d ds where eq: "str_int i = d # ds"
    using str_int_chars [of i] by (cases "str_int i") simp_all
  with str_int_chars [of i] have "d = CHR ''-'' \<or> isdigit d"
    by simp
  with isdigit_not [of d] have "d \<noteq> CHR ''P''"
    by auto
  then show ?thesis
    unfolding eq by simp
qed

lemma join_Cons: "join sep (x # xs) = x @ concat (map (\<lambda>y. sep @ y) xs)"
  by (induction xs arbitrary: x) simp_all


text \<open>
  What a handler may do to the counter, told by its response: a successful POST takes the
  counter as the id and adds one to it, every other response leaves the counter alone and
  adds no id to the store.
\<close>

definition post_effect :: "store \<Rightarrow> string \<Rightarrow> store \<Rightarrow> bool" where
  "post_effect g r g' =
     (if startswith ''OK Post '' r
      then r = post_created (next_post_id g) \<and> next_post_id g' = next_post_id g + 1
           \<and> fst ` set (posts g') \<subseteq> insert (next_post_id g) (fst ` set (posts g))
      else next_post_id g' = next_post_id g \<and> fst ` set (posts g') \<subseteq> fst ` set (posts g))"

lemma post_effect_same: "\<not> startswith ''OK Post '' r \<Longrightarrow> post_effect g r g"
  by (simp add: post_effect_def)

lemma handle_help_post_effect:
  "handle_help ph now g c rest = (r, c', g') \<Longrightarrow> post_effect g r g'"
  by (auto simp: handle_help_def help_response_def Let_def
        intro!: post_effect_same split: if_splits option.splits)

lemma handle_whoami_post_effect:
  "handle_whoami ph now g c rest = (r, c', g') \<Longrightarrow> post_effect g r g'"
  by (auto simp: handle_whoami_def require_auth_def
        intro!: post_effect_same split: if_splits option.splits)

lemma handle_quit_post_effect:
  "handle_quit ph now g c rest = (r, c', g') \<Longrightarrow> post_effect g r g'"
  by (auto simp: handle_quit_def
        intro!: post_effect_same split: if_splits)

lemma handle_login_post_effect:
  "handle_login ph now g c rest = (r, c', g') \<Longrightarrow> post_effect g r g'"
  by (auto simp: handle_login_def Let_def
        intro!: post_effect_same split: if_splits option.splits list.splits)

lemma handle_list_post_effect:
  "handle_list ph now g c rest = (r, c', g') \<Longrightarrow> post_effect g r g'"
  by (auto simp: handle_list_def require_auth_def Let_def join_Cons
        intro!: post_effect_same split: if_splits option.splits)

lemma handle_get_post_effect:
  "handle_get ph now g c rest = (r, c', g') \<Longrightarrow> post_effect g r g'"
  by (auto simp: handle_get_def require_auth_def Let_def fmt_post_def
        not_post_ok_get intro!: post_effect_same split: if_splits option.splits)

lemma keys_update: "fst ` set (AList.update k v al) = insert k (fst ` set al)"
  by (simp add: dom_update)

lemma handle_del_post_effect':
  "post_effect g (fst (handle_del ph now g c rest)) (snd (snd (handle_del ph now g c rest)))"
  by (simp add: handle_del_def require_auth_def Let_def post_effect_def dom_delete_subset
        split: option.split)

lemma handle_del_post_effect:
  "handle_del ph now g c rest = (r, c', g') \<Longrightarrow> post_effect g r g'"
  using handle_del_post_effect' [of g ph now c rest] by simp

lemma handle_post_post_effect':
  "post_effect g (fst (handle_post ph now g c rest)) (snd (snd (handle_post ph now g c rest)))"
  by (simp add: handle_post_def require_auth_def Let_def post_effect_def keys_update
        post_created_def split: option.split)

lemma handle_post_post_effect:
  "handle_post ph now g c rest = (r, c', g') \<Longrightarrow> post_effect g r g'"
  using handle_post_post_effect' [of g ph now c rest] by simp


text \<open>
  How to show that something holds after the loop of \<open>handle_client_socket\<close>: it holds
  when the loop ends with no line left, and every line handled keeps it.
\<close>

lemma read_lines_rule:
  assumes init: "P st c"
    and idle: "\<And>st c. P st c \<Longrightarrow> R (st\<lparr>clients := AList.update sock c (clients st)\<rparr>)"
    and skip: "\<And>st c rest. P st c \<Longrightarrow> P st (c\<lparr>buffer := rest\<rparr>)"
    and stop: "\<And>st c line st'. P st c \<Longrightarrow> LF \<notin> set line \<Longrightarrow> line \<noteq> [] \<Longrightarrow>
                 handle_line W st sock c line = (None, st') \<Longrightarrow> R st'"
    and cont: "\<And>st c line st' c2. P st c \<Longrightarrow> LF \<notin> set line \<Longrightarrow> line \<noteq> [] \<Longrightarrow>
                 handle_line W st sock c line = (Some c2, st') \<Longrightarrow> P st' c2"
  shows "R (read_lines W st sock c)"
  using init
proof (induction "length (buffer c)" arbitrary: st c rule: less_induct)
  case less
  show ?case
  proof (cases "LF \<in> set (buffer c)")
    case False
    with idle [OF less.prems] show ?thesis
      by (simp add: read_lines_idle)
  next
    case True
    then obtain line k rest where
      buf: "buffer c = line @ replicate k CR @ LF # rest" and nl: "LF \<notin> set line"
      and cr: "line = [] \<or> last line \<noteq> CR"
      using buffer_decomposition [of "buffer c"] by blast
    have shorter: "length rest < length (buffer c)"
      by (simp add: buf)
    have P1: "P st (c\<lparr>buffer := rest\<rparr>)"
      using less.prems by (rule skip)
    show ?thesis
    proof (cases "line = []")
      case True
      have "R (read_lines W st sock (c\<lparr>buffer := rest\<rparr>))"
        using shorter P1 by (intro less.hyps) simp_all
      with True show ?thesis
        by (simp add: read_lines_line [OF buf nl cr])
    next
      case False
      obtain x st' where hl: "handle_line W st sock (c\<lparr>buffer := rest\<rparr>) line = (x, st')"
        by (cases "handle_line W st sock (c\<lparr>buffer := rest\<rparr>) line")
      show ?thesis
      proof (cases x)
        case None
        with stop [OF P1 nl False] hl have "R st'"
          by simp
        with False hl None show ?thesis
          by (simp add: read_lines_line [OF buf nl cr])
      next
        case (Some c2)
        with hl have hl2: "handle_line W st sock (c\<lparr>buffer := rest\<rparr>) line = (Some c2, st')"
          by simp
        have "buffer c2 = rest"
          using handle_line_buffer [OF hl2] by simp
        moreover have "P st' c2"
          using P1 nl False hl2 by (rule cont)
        ultimately have "R (read_lines W st' sock c2)"
          using shorter by (intro less.hyps) simp_all
        with False hl2 show ?thesis
          by (simp add: read_lines_line [OF buf nl cr])
      qed
    qed
  qed
qed


lemma handler_post_effect:
  assumes "map_of COMMANDS cmd = Some (h, sc)" and "h ph now g c rest = (r, c', g')"
  shows "post_effect g r g'"
  using COMMANDS_cases [OF assms(1)]
  apply (elim disjE conjE)
  subgoal using assms(2) by (simp add: handle_help_post_effect)
  subgoal using assms(2) by (simp add: handle_login_post_effect)
  subgoal using assms(2) by (simp add: handle_post_post_effect)
  subgoal using assms(2) by (simp add: handle_list_post_effect)
  subgoal using assms(2) by (simp add: handle_get_post_effect)
  subgoal using assms(2) by (simp add: handle_del_post_effect)
  subgoal using assms(2) by (simp add: handle_whoami_post_effect)
  subgoal using assms(2) by (simp add: handle_quit_post_effect)
  done

lemma process_line_post_effect:
  assumes "process_line ph now g c (Some line) = (r, sc, c', g')"
  shows "case r of None \<Rightarrow> g' = g | Some resp \<Rightarrow> post_effect g resp g'"
proof (cases "line = []")
  case True
  with assms show ?thesis by simp
next
  case False
  show ?thesis
  proof (cases "map_of COMMANDS (upper (command_token line))")
    case None
    with assms False show ?thesis
      by (auto simp: process_line_unknown intro!: post_effect_same)
  next
    case (Some hs)
    obtain h fl where hs: "hs = (h, fl)"
      by (cases hs)
    obtain rr cc gg where run: "h ph now g c (payload line) = (rr, cc, gg)"
      by (cases "h ph now g c (payload line)")
    from assms Some hs run have "r = Some rr" and "g' = gg"
      by (simp_all add: process_line_command)
    with handler_post_effect [OF Some [unfolded hs] run] show ?thesis
      by simp
  qed
qed

lemma post_ids_inv_send:
  assumes "post_ids_inv st" and "post_effect (globals st) r g'"
  shows "post_ids_inv (st\<lparr>globals := g', wire := wire st @ [(sock, r, ok)]\<rparr>)"
proof (cases "startswith ''OK Post '' r")
  case True
  let ?n = "next_post_id (globals st)"
  from assms(2) True have r: "r = post_created ?n" and n: "next_post_id g' = ?n + 1"
    and keys: "fst ` set (posts g') \<subseteq> insert ?n (fst ` set (posts (globals st)))"
    by (simp_all add: post_effect_def)
  from assms(1) have old: "created_responses st = map post_created [1..?n - 1]" and pos: "1 \<le> ?n"
    and bound: "\<forall>k \<in> fst ` set (posts (globals st)). 1 \<le> k \<and> k < ?n"
    by (simp_all add: post_ids_inv_def)
  have "[1..?n] = [1..?n - 1] @ [?n]"
    using pos by (rule upto_rec2)
  then have "created_responses (st\<lparr>globals := g', wire := wire st @ [(sock, r, ok)]\<rparr>)
      = map post_created [1..next_post_id g' - 1]"
    using True old by (simp add: created_responses_def r n)
  moreover have "\<forall>k \<in> fst ` set (posts g'). 1 \<le> k \<and> k < next_post_id g'"
  proof
    fix k assume "k \<in> fst ` set (posts g')"
    with keys have "k = ?n \<or> k \<in> fst ` set (posts (globals st))"
      by auto
    with bound pos show "1 \<le> k \<and> k < next_post_id g'"
      unfolding n by auto
  qed
  ultimately show ?thesis
    using pos by (simp add: post_ids_inv_def n)
next
  case False
  from assms(2) False have n: "next_post_id g' = next_post_id (globals st)"
    and keys: "fst ` set (posts g') \<subseteq> fst ` set (posts (globals st))"
    by (simp_all add: post_effect_def)
  from assms(1) keys have "\<forall>k \<in> fst ` set (posts g'). 1 \<le> k \<and> k < next_post_id g'"
    unfolding n post_ids_inv_def by blast
  with assms(1) False show ?thesis
    by (simp add: post_ids_inv_def created_responses_def n)
qed

lemma post_ids_inv_nosend:
  assumes "post_ids_inv st" and "post_effect (globals st) [] g'"
  shows "post_ids_inv (st\<lparr>globals := g'\<rparr>)"
proof -
  from assms(2) have n: "next_post_id g' = next_post_id (globals st)"
    and keys: "fst ` set (posts g') \<subseteq> fst ` set (posts (globals st))"
    by (simp_all add: post_effect_def)
  from assms(1) keys have "\<forall>k \<in> fst ` set (posts g'). 1 \<le> k \<and> k < next_post_id g'"
    unfolding n post_ids_inv_def by blast
  with assms(1) show ?thesis
    by (simp add: post_ids_inv_def created_responses_def n)
qed

lemma post_ids_inv_clients [simp]:
  "post_ids_inv (st\<lparr>clients := cs\<rparr>) = post_ids_inv st"
  "post_ids_inv (close_client st sock) = post_ids_inv st"
  by (simp_all add: post_ids_inv_def created_responses_def close_client_def)

lemma handle_line_post_ids:
  assumes "post_ids_inv st" and "handle_line W st sock c line = (x, st')"
  shows "post_ids_inv st'"
proof -
  obtain r sc c2 g2 where
    pl: "process_line (hasher W) (localtime W (length (wire st))) (globals st) c (Some line)
           = (r, sc, c2, g2)"
    by (metis prod_cases4)
  show ?thesis
  proof (cases r)
    case None
    with process_line_post_effect [OF pl] have "g2 = globals st"
      by simp
    with assms None show ?thesis
      unfolding handle_line_def pl by (auto simp: Let_def split: if_splits)
  next
    case (Some resp)
    with process_line_post_effect [OF pl] have eff: "post_effect (globals st) resp g2"
      by simp
    show ?thesis
    proof (cases "resp = []")
      case True
      with eff assms(1) have "post_ids_inv (st\<lparr>globals := g2\<rparr>)"
        by (simp add: post_ids_inv_nosend)
      with assms(2) Some True show ?thesis
        unfolding handle_line_def pl by (auto simp: Let_def split: if_splits)
    next
      case False
      have "post_ids_inv (st\<lparr>globals := g2,
          wire := wire st @ [(sock, resp, sendall_ok W (length (wire st)))]\<rparr>)"
        using assms(1) eff by (rule post_ids_inv_send)
      with assms(2) Some False show ?thesis
        unfolding handle_line_def pl by (auto simp: Let_def sendall_def split: if_splits)
    qed
  qed
qed

lemma read_lines_post_ids:
  assumes "post_ids_inv st"
  shows "post_ids_inv (read_lines W st sock c)"
  by (rule read_lines_rule [where P = "\<lambda>st c. post_ids_inv st" and R = post_ids_inv])
     (use assms in \<open>auto intro: handle_line_post_ids\<close>)

lemma handle_client_socket_post_ids:
  assumes "post_ids_inv st"
  shows "post_ids_inv (handle_client_socket W st sock received)"
proof -
  have "post_ids_inv (st\<lparr>wire := wire st @ [(sock, ''ERR Line too long\<newline>'', ok)]\<rparr>)" for ok
    using post_ids_inv_send [OF assms post_effect_same, of "''ERR Line too long\<newline>''" sock ok]
    by simp
  moreover have "post_ids_inv (st\<lparr>closed := xs\<rparr>)" for xs
    using assms by (simp add: post_ids_inv_def created_responses_def)
  ultimately show ?thesis
    using assms
    by (simp add: handle_client_socket_def Let_def sendall_def read_lines_post_ids
          split: option.split)
qed

lemma main_loop_post_ids:
  assumes "post_ids_inv st"
  shows "post_ids_inv (main_loop W st events)"
  using assms unfolding main_loop_def
proof (induction events arbitrary: st)
  case Nil
  then show ?case by simp
next
  case (Cons e events)
  have "post_ids_inv (serve W st e)"
    using Cons.prems by (cases e) (simp_all add: handle_client_socket_post_ids)
  then show ?case
    by (simp add: Cons.IH)
qed

lemma initial_post_ids: "post_ids_inv (initial_server W)"
  by (simp add: post_ids_inv_def initial_server_def initial_store_def created_responses_def)


text \<open>
  Claim C4. The server starts with the counter at 1 and then serves any sequence of events
  (connections accepted, bytes received on any socket, in any interleaving). Afterwards
  the responses to the successful POSTs, in the order in which they were made, carry the
  ids \<open>1, 2, 3, ...\<close> without a gap, the counter is one more than their number (so it was
  incremented once for each of them and by nothing else: failed POSTs, deletions and every
  other command leave it alone), and every id in the store is below the counter, so that
  no id, deleted or not, is given out again.
\<close>

theorem post_ids_consecutive:
  "created_responses (main_loop W (initial_server W) events)
     = map post_created [1..next_post_id (globals (main_loop W (initial_server W) events)) - 1]
   \<and> next_post_id (globals (main_loop W (initial_server W) events))
     = 1 + int (length (created_responses (main_loop W (initial_server W) events)))
   \<and> (\<forall>k \<in> fst ` set (posts (globals (main_loop W (initial_server W) events))).
         1 \<le> k \<and> k < next_post_id (globals (main_loop W (initial_server W) events)))"
proof -
  let ?st = "main_loop W (initial_server W) events"
  have inv: "post_ids_inv ?st"
    using initial_post_ids by (rule main_loop_post_ids)
  then have "length (created_responses ?st) = nat (next_post_id (globals ?st) - 1)"
    by (simp add: post_ids_inv_def)
  moreover from inv have "1 \<le> next_post_id (globals ?st)"
    by (simp add: post_ids_inv_def)
  ultimately have "next_post_id (globals ?st) = 1 + int (length (created_responses ?st))"
    by simp
  with inv show ?thesis
    unfolding post_ids_inv_def by blast
qed

text \<open>One client logs in, posts, deletes its post, fails to post, and posts again.\<close>

definition example_events :: "event list" where
  "example_events =
     [Accept 3,
      Readable 3 (Data (''LOGIN oliver pw1'' @ [LF] @ ''POST a'' @ [LF] @ ''DEL 1'' @ [LF]
         @ ''POST  '' @ [LF] @ ''POST b'' @ [LF]))]"

lemma example_run:
  "main_loop example_world (initial_server example_world) example_events
   = \<lparr>clients = [(3, session ''oliver'' ''user'')],
      globals = \<lparr>USERS = hash_seeded_users example_hasher,
                 posts = [(2, \<lparr>post_id = 2, author = Some ''oliver'',
                              timestamp = ''2024-03-09T14:05:00'', message = ''b''\<rparr>)],
                 next_post_id = 3\<rparr>,
      wire = [(3, ''OK Logged in as oliver (user)\<newline>'', True),
              (3, ''OK Post 1 created\<newline>'', True),
              (3, ''OK Deleted 1\<newline>'', True),
              (3, ''ERR Empty message\<newline>'', True),
              (3, ''OK Post 2 created\<newline>'', True)],
      closed = []\<rparr>"
  by code_simp

theorem post_ids_consecutive_witness:
  "created_responses (main_loop example_world (initial_server example_world) example_events)
     = [''OK Post 1 created\<newline>'', ''OK Post 2 created\<newline>'']
   \<and> next_post_id (globals (main_loop example_world (initial_server example_world) example_events))
     = 3
   \<and> map fst (posts (globals
         (main_loop example_world (initial_server example_world) example_events))) = [2]"
  using post_ids_consecutive [of example_world example_events]
  by (simp add: example_run created_responses_def)

section \<open>Count-framed responses\<close>




























end
